theory Spec2Isabelle
  imports Complex_Main "HOL-Library.AList"
begin

section \<open>Python string operations used by the coordinator\<close>

text \<open>
  Strings are character lists. \<open>is_space\<close> is Python's \<open>str.isspace\<close> on the code points
  below 256, which is what \<open>strip()\<close> and \<open>split()\<close> without arguments cut at.
\<close>

definition is_space :: "char \<Rightarrow> bool" where
  "is_space c = (of_char c \<in> {9, 10, 11, 12, 13, 28, 29, 30, 31, 32, 133, 160 :: nat})"

text \<open>\<open>message.strip()\<close>\<close>

definition strip :: "string \<Rightarrow> string" where
  "strip s = rev (dropWhile is_space (rev (dropWhile is_space s)))"

text \<open>\<open>message.startswith(p)\<close>\<close>

definition startswith :: "string \<Rightarrow> string \<Rightarrow> bool" where
  "startswith s p = (take (length p) s = p)"

text \<open>\<open>message.split()\<close>: the maximal runs of non-whitespace characters, in order.\<close>

fun split_acc :: "string \<Rightarrow> string \<Rightarrow> string list" where
  "split_acc cur [] = (if cur = [] then [] else [cur])"
| "split_acc cur (c # cs) =
     (if is_space c then (if cur = [] then split_acc [] cs else cur # split_acc [] cs)
      else split_acc (cur @ [c]) cs)"

definition split :: "string \<Rightarrow> string list" where
  "split s = split_acc [] s"

text \<open>\<open>message.split(' ', 1)\<close>: cut once, at the first space, if there is one.\<close>

definition split_space_once :: "string \<Rightarrow> string list" where
  "split_space_once s =
     (if CHR '' '' \<in> set s
      then [takeWhile (\<lambda>c. c \<noteq> CHR '' '') s, tl (dropWhile (\<lambda>c. c \<noteq> CHR '' '') s)]
      else [s])"

text \<open>\<open>utils.parse_command\<close>\<close>

definition parse_command :: "string \<Rightarrow> string \<times> string" where
  "parse_command message =
     (let parts = split_space_once message;
          command = hd parts;
          argument = (if length parts > 1 then parts ! 1 else '''')
      in (command, argument))"

text \<open>\<open>sep.join(xs)\<close>\<close>

fun join :: "string \<Rightarrow> string list \<Rightarrow> string" where
  "join sep [] = []"
| "join sep [x] = x"
| "join sep (x # y # ys) = x @ sep @ join sep (y # ys)"

text \<open>\<open>sub in s\<close> on strings: \<open>sub\<close> occurs in \<open>s\<close> as a contiguous block.\<close>

fun str_in :: "string \<Rightarrow> string \<Rightarrow> bool" where
  "str_in sub [] = (sub = [])"
| "str_in sub (c # cs) = (startswith (c # cs) sub \<or> str_in sub cs)"

section \<open>Configuration constants (config.py)\<close>

definition HEARTBEAT_TIMEOUT :: real where "HEARTBEAT_TIMEOUT = 3"

definition MSG_HEARTBEAT :: string where "MSG_HEARTBEAT = ''HBT''"
definition MSG_OK :: string where "MSG_OK = ''OK''"
definition MSG_ERROR :: string where "MSG_ERROR = ''ERR''"
definition MSG_TCP :: string where "MSG_TCP = ''TCP''"

definition CMD_LIST_ACTIVE_PEERS :: string where "CMD_LIST_ACTIVE_PEERS = ''lap''"
definition CMD_LIST_PUBLISHED_FILES :: string where "CMD_LIST_PUBLISHED_FILES = ''lpf''"
definition CMD_PUBLISH :: string where "CMD_PUBLISH = ''pub''"
definition CMD_UNPUBLISH :: string where "CMD_UNPUBLISH = ''unp''"
definition CMD_SEARCH :: string where "CMD_SEARCH = ''sch''"
definition CMD_GET :: string where "CMD_GET = ''get''"

definition RESP_FILE_PUBLISHED :: string where
  "RESP_FILE_PUBLISHED = ''File published successfully''"
definition RESP_FILE_UNPUBLISHED :: string where
  "RESP_FILE_UNPUBLISHED = ''File unpublished successfully''"
definition RESP_FILE_UNPUB_FAILED :: string where
  "RESP_FILE_UNPUB_FAILED = ''File unpublication failed''"
definition RESP_NO_ACTIVE_PEERS :: string where
  "RESP_NO_ACTIVE_PEERS = ''No active peers''"
definition RESP_NO_PUBLISHED_FILES :: string where
  "RESP_NO_PUBLISHED_FILES = ''No published files''"
definition RESP_NO_FILES_FOUND :: string where
  "RESP_NO_FILES_FOUND = ''No files found''"
definition RESP_FILE_NOT_FOUND :: string where
  "RESP_FILE_NOT_FOUND = ''File not found''"
definition RESP_NO_ACTIVE_PEER_HAS_FILE :: string where
  "RESP_NO_ACTIVE_PEER_HAS_FILE = ''No active peer has this file''"

section \<open>State of the coordinator (server.py, \<open>PeerSyncServer\<close>)\<close>

text \<open>
  A Python \<open>dict\<close> keeps its keys in insertion order, and the handlers iterate over both
  tables, so each table is an association list: \<open>map_of\<close> is \<open>d[k]\<close> and \<open>k in d\<close>,
  \<open>AList.update\<close> is \<open>d[k] = v\<close> (in place for a key that is there, at the end for a new
  one) and \<open>AList.delete\<close> is \<open>del d[k]\<close>. A lookup of a missing key raises \<open>KeyError\<close>.
  Timestamps are \<open>time.time()\<close> readings, taken as real numbers.
  The socket is the list of datagrams a handler sends, each with its destination.
  \<open>log_action\<close> only prints and is left out.
\<close>

type_synonym client_address = "string \<times> int"

record client_data =
  username :: string
  last_heartbeat :: real
  tcp_address :: "(string \<times> string) option"

type_synonym clients = "(client_address \<times> client_data) list"
type_synonym registry = "(string \<times> string list) list"

record server =
  active_clients :: clients
  published_files :: registry
  credentials :: "string \<rightharpoonup> string"

type_synonym datagram = "string \<times> client_address"

datatype py_exn = KeyError | ValueError | UnicodeDecodeError

text \<open>The keys of a \<open>dict\<close> are pairwise different.\<close>

definition dict_ok :: "('k \<times> 'v) list \<Rightarrow> bool" where
  "dict_ok d = distinct (map fst d)"

section \<open>Liveness sweep\<close>

text \<open>
  \<open>check_for_inactive_clients\<close>: first the list of stale addresses, then one
  lookup and one \<open>del\<close> for each of them.
\<close>

definition inactive_clients :: "real \<Rightarrow> clients \<Rightarrow> client_address list" where
  "inactive_clients current_time ac =
     map fst (filter (\<lambda>(client, data). current_time - last_heartbeat data > HEARTBEAT_TIMEOUT) ac)"

fun remove_clients :: "client_address list \<Rightarrow> clients \<Rightarrow> py_exn + clients" where
  "remove_clients [] ac = Inr ac"
| "remove_clients (client # rest) ac =
     (case map_of ac client of
        None \<Rightarrow> Inl KeyError
      | Some data \<Rightarrow> remove_clients rest (AList.delete client ac))"

definition check_for_inactive_clients :: "real \<Rightarrow> server \<Rightarrow> py_exn + server" where
  "check_for_inactive_clients current_time s =
     (case remove_clients (inactive_clients current_time (active_clients s)) (active_clients s) of
        Inl e \<Rightarrow> Inl e
      | Inr ac \<Rightarrow> Inr (s\<lparr>active_clients := ac\<rparr>))"

section \<open>Handlers\<close>

definition process_heartbeat :: "real \<Rightarrow> server \<Rightarrow> client_address \<Rightarrow> server" where
  "process_heartbeat now s client_address =
     (case map_of (active_clients s) client_address of
        None \<Rightarrow> s
      | Some data \<Rightarrow>
          s\<lparr>active_clients :=
              AList.update client_address (data\<lparr>last_heartbeat := now\<rparr>) (active_clients s)\<rparr>)"

definition authenticate_client ::
  "real \<Rightarrow> server \<Rightarrow> client_address \<Rightarrow> string \<Rightarrow> server \<times> datagram list" where
  "authenticate_client now s client_address message =
     (case split message of
        [c, user, password] \<Rightarrow>
          if \<exists>data \<in> set (map snd (active_clients s)). username data = user
          then (s, [(MSG_ERROR, client_address)])
          else if credentials s user = Some password
          then (s\<lparr>active_clients :=
                    AList.update client_address
                      \<lparr>username = user, last_heartbeat = now, tcp_address = None\<rparr>
                      (active_clients s)\<rparr>,
                [(MSG_OK, client_address)])
          else (s, [(MSG_ERROR, client_address)])
      | _ \<Rightarrow> (s, [(MSG_ERROR, client_address)]))"

text \<open>
  \<open>process_tcp_address\<close>: the unpacking of \<open>message.split()\<close> into three names raises
  \<open>ValueError\<close> for any other number of parts; the handler catches it itself.
\<close>

definition process_tcp_address :: "server \<Rightarrow> client_address \<Rightarrow> string \<Rightarrow> server" where
  "process_tcp_address s client_address message =
     (case split message of
        [c, tcp_ip, tcp_port] \<Rightarrow>
          (case map_of (active_clients s) client_address of
             None \<Rightarrow> s
           | Some data \<Rightarrow>
               s\<lparr>active_clients :=
                   AList.update client_address (data\<lparr>tcp_address := Some (tcp_ip, tcp_port)\<rparr>)
                     (active_clients s)\<rparr>)
      | _ \<Rightarrow> s)"

definition handle_publish_file ::
  "server \<Rightarrow> client_address \<Rightarrow> string \<Rightarrow> server \<times> datagram list" where
  "handle_publish_file s client_address message =
     (let filename = snd (parse_command message) in
      case map_of (active_clients s) client_address of
        None \<Rightarrow> (s, [])
      | Some data \<Rightarrow>
          (s\<lparr>published_files :=
               (case map_of (published_files s) filename of
                  Some publishers \<Rightarrow>
                    if username data \<notin> set publishers
                    then AList.update filename (publishers @ [username data]) (published_files s)
                    else published_files s
                | None \<Rightarrow> AList.update filename [username data] (published_files s))\<rparr>,
           [(RESP_FILE_PUBLISHED, client_address)]))"

definition handle_unpublish_file ::
  "server \<Rightarrow> client_address \<Rightarrow> string \<Rightarrow> server \<times> datagram list" where
  "handle_unpublish_file s client_address message =
     (let filename = snd (parse_command message) in
      case map_of (active_clients s) client_address of
        None \<Rightarrow> (s, [])
      | Some data \<Rightarrow>
          (case map_of (published_files s) filename of
             None \<Rightarrow> (s, [(RESP_FILE_UNPUB_FAILED, client_address)])
           | Some publishers \<Rightarrow>
               if username data \<in> set publishers
               then (let remaining = remove1 (username data) publishers in
                     (s\<lparr>published_files :=
                          (if remaining = [] then AList.delete filename (published_files s)
                           else AList.update filename remaining (published_files s))\<rparr>,
                      [(RESP_FILE_UNPUBLISHED, client_address)]))
               else (s, [(RESP_FILE_UNPUB_FAILED, client_address)])))"

definition handle_list_active_peers ::
  "server \<Rightarrow> client_address \<Rightarrow> server \<times> datagram list" where
  "handle_list_active_peers s client_address =
     (case map_of (active_clients s) client_address of
        None \<Rightarrow> (s, [])
      | Some data \<Rightarrow>
          (let active_peers =
                 map (\<lambda>(addr, d). username d)
                   (filter (\<lambda>(addr, d). addr \<noteq> client_address) (active_clients s));
               response = (if active_peers \<noteq> [] then join '', '' active_peers
                           else RESP_NO_ACTIVE_PEERS)
           in (s, [(response, client_address)])))"

definition handle_list_published_files ::
  "server \<Rightarrow> client_address \<Rightarrow> server \<times> datagram list" where
  "handle_list_published_files s client_address =
     (case map_of (active_clients s) client_address of
        None \<Rightarrow> (s, [])
      | Some data \<Rightarrow>
          (let response = (if published_files s \<noteq> [] then join '', '' (map fst (published_files s))
                           else RESP_NO_PUBLISHED_FILES)
           in (s, [(response, client_address)])))"

definition handle_search_files ::
  "server \<Rightarrow> client_address \<Rightarrow> string \<Rightarrow> server \<times> datagram list" where
  "handle_search_files s client_address message =
     (case map_of (active_clients s) client_address of
        None \<Rightarrow> (s, [])
      | Some data \<Rightarrow>
          (let substring = snd (parse_command message);
               matching_files =
                 map fst
                   (filter (\<lambda>(filename, publishers).
                              str_in substring filename \<and> username data \<notin> set publishers)
                      (published_files s));
               response = (if matching_files \<noteq> [] then join '', '' matching_files
                           else RESP_NO_FILES_FOUND)
           in (s, [(response, client_address)])))"

text \<open>
  \<open>handle_get_request\<close>. The inner loop looks for the first session that bears the
  publisher's name; the outer loop walks the publishers in list order. An address and
  an endpoint are tuples of two components, hence true in a condition whenever they
  are not \<open>None\<close>. The requester's own session is read without a membership test.
\<close>

fun find_peer_address :: "clients \<Rightarrow> string \<Rightarrow> client_address option" where
  "find_peer_address [] publisher_username = None"
| "find_peer_address ((addr, data) # rest) publisher_username =
     (if username data = publisher_username then Some addr
      else find_peer_address rest publisher_username)"

fun find_active_peer :: "clients \<Rightarrow> string \<Rightarrow> string list \<Rightarrow> py_exn + string option" where
  "find_active_peer ac requesting_username [] = Inr None"
| "find_active_peer ac requesting_username (publisher_username # rest) =
     (if publisher_username = requesting_username
      then find_active_peer ac requesting_username rest
      else case find_peer_address ac publisher_username of
             None \<Rightarrow> find_active_peer ac requesting_username rest
           | Some peer_address \<Rightarrow>
               (case map_of ac peer_address of
                  None \<Rightarrow> Inl KeyError
                | Some data \<Rightarrow>
                    (case tcp_address data of
                       None \<Rightarrow> find_active_peer ac requesting_username rest
                     | Some (peer_ip, peer_port) \<Rightarrow>
                         Inr (Some (publisher_username @ '' '' @ peer_ip @ '' '' @ peer_port)))))"

definition handle_get_request ::
  "server \<Rightarrow> client_address \<Rightarrow> string \<Rightarrow> py_exn + server \<times> datagram list" where
  "handle_get_request s client_address message =
     (let filename = snd (parse_command message) in
      case map_of (active_clients s) client_address of
        None \<Rightarrow> Inl KeyError
      | Some requester \<Rightarrow>
          (case map_of (published_files s) filename of
             None \<Rightarrow> Inr (s, [(RESP_FILE_NOT_FOUND, client_address)])
           | Some publishers \<Rightarrow>
               (case find_active_peer (active_clients s) (username requester) publishers of
                  Inl e \<Rightarrow> Inl e
                | Inr (Some response) \<Rightarrow> Inr (s, [(response, client_address)])
                | Inr None \<Rightarrow> Inr (s, [(RESP_NO_ACTIVE_PEER_HAS_FILE, client_address)]))))"

section \<open>The control loop (\<open>PeerSyncServer.run\<close>)\<close>

text \<open>The branch of the \<open>if\<close>/\<open>elif\<close> chain that a stripped message takes.\<close>

datatype command =
  HEARTBEAT | PUBLISH | UNPUBLISH | REPORT_DATA_ENDPOINT | LIST_PEERS | LIST_FILES
  | SEARCH | GET | AUTH | UNKNOWN

definition route :: "string \<Rightarrow> command" where
  "route message =
     (if message = MSG_HEARTBEAT then HEARTBEAT
      else if startswith message CMD_PUBLISH then PUBLISH
      else if startswith message CMD_UNPUBLISH then UNPUBLISH
      else if startswith message MSG_TCP then REPORT_DATA_ENDPOINT
      else if message = CMD_LIST_ACTIVE_PEERS then LIST_PEERS
      else if message = CMD_LIST_PUBLISHED_FILES then LIST_FILES
      else if startswith message CMD_SEARCH then SEARCH
      else if startswith message CMD_GET then GET
      else if startswith message ''auth'' then AUTH
      else UNKNOWN)"

definition dispatch ::
  "real \<Rightarrow> server \<Rightarrow> client_address \<Rightarrow> string \<Rightarrow> py_exn + server \<times> datagram list" where
  "dispatch now s client_address message =
     (case route message of
        HEARTBEAT \<Rightarrow> Inr (process_heartbeat now s client_address, [])
      | PUBLISH \<Rightarrow> Inr (handle_publish_file s client_address message)
      | UNPUBLISH \<Rightarrow> Inr (handle_unpublish_file s client_address message)
      | REPORT_DATA_ENDPOINT \<Rightarrow> Inr (process_tcp_address s client_address message, [])
      | LIST_PEERS \<Rightarrow> Inr (handle_list_active_peers s client_address)
      | LIST_FILES \<Rightarrow> Inr (handle_list_published_files s client_address)
      | SEARCH \<Rightarrow> Inr (handle_search_files s client_address message)
      | GET \<Rightarrow> handle_get_request s client_address message
      | AUTH \<Rightarrow> Inr (authenticate_client now s client_address message)
      | UNKNOWN \<Rightarrow> Inr (s, [(MSG_ERROR, client_address)]))"

text \<open>
  One turn of \<open>while True\<close>. The sweep runs outside the \<open>try\<close>, so a fault in it ends
  the loop. \<open>recvfrom\<close> either times out or delivers raw bytes and the sender's address;
  \<open>decode\<close> stands for \<open>bytes.decode\<close>, which raises on bytes that are not UTF-8. Every
  fault inside the \<open>try\<close> is caught by \<open>except Exception\<close> and the loop goes on with
  the state as it was when the fault was raised: every fault of the model is raised
  before its handler has changed the state or sent anything.
\<close>

datatype 'raw received = Timeout | Datagram 'raw client_address

datatype loop_outcome = Continue server "datagram list" | Terminated py_exn

definition run_iteration ::
  "('raw \<Rightarrow> py_exn + string) \<Rightarrow> real \<Rightarrow> real \<Rightarrow> server \<Rightarrow> 'raw received \<Rightarrow> loop_outcome" where
  "run_iteration decode sweep_time now s ev =
     (case check_for_inactive_clients sweep_time s of
        Inl e \<Rightarrow> Terminated e
      | Inr s1 \<Rightarrow>
          (case ev of
             Timeout \<Rightarrow> Continue s1 []
           | Datagram raw client_address \<Rightarrow>
               (case decode raw of
                  Inl e \<Rightarrow> Continue s1 []
                | Inr text \<Rightarrow>
                    (case dispatch now s1 client_address (strip text) of
                       Inl e \<Rightarrow> Continue s1 []
                     | Inr (s2, out) \<Rightarrow> Continue s2 out))))"

section \<open>Runs of the sweep, and an example state\<close>

text \<open>The sweeps of successive turns of the loop, at the given clock readings.\<close>

fun sweeps :: "real list \<Rightarrow> server \<Rightarrow> py_exn + server" where
  "sweeps [] s = Inr s"
| "sweeps (t # ts) s =
     (case check_for_inactive_clients t s of Inl e \<Rightarrow> Inl e | Inr s' \<Rightarrow> sweeps ts s')"

text \<open>
  Two sessions, the first with a reported endpoint, and two published files.
\<close>

definition demo :: server where
  "demo =
     \<lparr>active_clients =
        [((''10.0.0.1'', 5001), \<lparr>username = ''alice'', last_heartbeat = 1, tcp_address = Some (''10.0.0.1'', ''9001'')\<rparr>),
         ((''10.0.0.2'', 5002), \<lparr>username = ''bob'', last_heartbeat = 8, tcp_address = None\<rparr>)],
      published_files = [(''report.pdf'', [''alice'']), (''notes.txt'', [''alice'', ''bob''])],
      credentials = [''alice'' \<mapsto> ''pw1'', ''bob'' \<mapsto> ''pw2'', ''carol'' \<mapsto> ''pw3'']\<rparr>"

text \<open>A handler's output: nothing, or one datagram to the sender.\<close>

definition single_reply :: "client_address \<Rightarrow> datagram list \<Rightarrow> bool" where
  "single_reply a out = (out = [] \<or> (\<exists>reply. out = [(reply, a)]))"

section \<open>Search and resolution as the specification words them\<close>

text \<open>
  The substring test in the words of the specification: a literal, contiguous occurrence.
\<close>

definition occurs_in :: "string \<Rightarrow> string \<Rightarrow> bool" where
  "occurs_in sub s = (\<exists>pre suf. s = pre @ sub @ suf)"

text \<open>
  The search as claim C1 words it: the publisher set without the excluded name is not empty.
\<close>

definition search_as_claimed :: "registry \<Rightarrow> string \<Rightarrow> string \<Rightarrow> string list" where
  "search_as_claimed reg sub excluding =
     map fst (filter (\<lambda>(filename, publishers).
                        occurs_in sub filename \<and> set publishers - {excluding} \<noteq> {}) reg)"

text \<open>
  GET as the specification words it: \<open>findByUsername\<close> resolves a publisher to its
  session; the candidates are the publishers other than the requester whose session has
  an endpoint, in list order; the reply is built from the first candidate.
\<close>

definition findByUsername :: "clients \<Rightarrow> string \<Rightarrow> (client_address \<times> client_data) option" where
  "findByUsername ac u = List.find (\<lambda>(addr, data). username data = u) ac"

definition endpoint_of :: "clients \<Rightarrow> string \<Rightarrow> (string \<times> string) option" where
  "endpoint_of ac u =
     (case findByUsername ac u of None \<Rightarrow> None | Some (addr, data) \<Rightarrow> tcp_address data)"

definition candidates :: "clients \<Rightarrow> string \<Rightarrow> string list \<Rightarrow> (string \<times> string \<times> string) list" where
  "candidates ac requester publishers =
     List.map_filter
       (\<lambda>p. if p = requester then None
            else map_option (\<lambda>(host, port). (p, host, port)) (endpoint_of ac p))
       publishers"

definition get_reply_spec :: "server \<Rightarrow> string \<Rightarrow> string \<Rightarrow> string" where
  "get_reply_spec s requester filename =
     (case map_of (published_files s) filename of
        None \<Rightarrow> RESP_FILE_NOT_FOUND
      | Some publishers \<Rightarrow>
          (case candidates (active_clients s) requester publishers of
             [] \<Rightarrow> RESP_NO_ACTIVE_PEER_HAS_FILE
           | (p, host, port) # rest \<Rightarrow> p @ '' '' @ host @ '' '' @ port))"

section \<open>Publication requests and the registry operations they stand for\<close>

text \<open>
  A \<open>pub <filename>\<close> or \<open>unp <filename>\<close> datagram from an address, the handler's
  answer to it, and a sequence of them handled one after the other.
\<close>

datatype request = PubRequest client_address string | UnpRequest client_address string

fun serve :: "server \<Rightarrow> request \<Rightarrow> server \<times> datagram list" where
  "serve s (PubRequest a f) = handle_publish_file s a (CMD_PUBLISH @ '' '' @ f)"
| "serve s (UnpRequest a f) = handle_unpublish_file s a (CMD_UNPUBLISH @ '' '' @ f)"

fun serve_all :: "server \<Rightarrow> request list \<Rightarrow> server" where
  "serve_all s [] = s"
| "serve_all s (r # rs) = serve_all (fst (serve s r)) rs"

text \<open>
  The registry in the words of the specification: \<open>publish(filename, username)\<close> adds
  the name to the set of the filename, \<open>unpublish(filename, username)\<close> removes it.
  \<open>ops_of\<close> reads the operations off the requests, with the username of the sender's
  session.
\<close>

datatype registry_op = Publish string string | Unpublish string string

definition publishers_of :: "registry \<Rightarrow> string \<Rightarrow> string set" where
  "publishers_of reg f = (case map_of reg f of None \<Rightarrow> {} | Some ps \<Rightarrow> set ps)"

fun net_effect :: "string \<Rightarrow> registry_op list \<Rightarrow> string set \<Rightarrow> string set" where
  "net_effect f [] P = P"
| "net_effect f (Publish g u # ops) P = net_effect f ops (if g = f then insert u P else P)"
| "net_effect f (Unpublish g u # ops) P = net_effect f ops (if g = f then P - {u} else P)"

fun ops_of :: "clients \<Rightarrow> request list \<Rightarrow> registry_op list" where
  "ops_of ac [] = []"
| "ops_of ac (PubRequest a f # rs) =
     (case map_of ac a of None \<Rightarrow> ops_of ac rs | Some d \<Rightarrow> Publish f (username d) # ops_of ac rs)"
| "ops_of ac (UnpRequest a f # rs) =
     (case map_of ac a of None \<Rightarrow> ops_of ac rs | Some d \<Rightarrow> Unpublish f (username d) # ops_of ac rs)"

text \<open>
  No publisher list names a peer twice; no entry has an empty publisher list.
\<close>

definition publishers_distinct :: "registry \<Rightarrow> bool" where
  "publishers_distinct reg = (\<forall>(f, ps) \<in> set reg. distinct ps)"

definition no_empty_entry :: "registry \<Rightarrow> bool" where
  "no_empty_entry reg = (\<forall>(f, ps) \<in> set reg. ps \<noteq> [])"

text \<open>
  \<open>PeerSyncServer.__init__\<close>: both tables empty, the credentials as loaded.
\<close>

definition init :: "(string \<rightharpoonup> string) \<Rightarrow> server" where
  "init creds = \<lparr>active_clients = [], published_files = [], credentials = creds\<rparr>"

section \<open>Facts about the configuration\<close>

lemmas config_defs =
  MSG_HEARTBEAT_def MSG_OK_def MSG_ERROR_def MSG_TCP_def
  CMD_LIST_ACTIVE_PEERS_def CMD_LIST_PUBLISHED_FILES_def CMD_PUBLISH_def CMD_UNPUBLISH_def
  CMD_SEARCH_def CMD_GET_def
  RESP_FILE_PUBLISHED_def RESP_FILE_UNPUBLISHED_def RESP_FILE_UNPUB_FAILED_def
  RESP_NO_ACTIVE_PEERS_def RESP_NO_PUBLISHED_FILES_def RESP_NO_FILES_FOUND_def
  RESP_FILE_NOT_FOUND_def RESP_NO_ACTIVE_PEER_HAS_FILE_def

section \<open>Parsing and routing\<close>

lemma parse_command_fst: "fst (parse_command m) = takeWhile (\<lambda>c. c \<noteq> CHR '' '') m"
proof (cases "CHR '' '' \<in> set m")
  case True
  then show ?thesis by (simp add: parse_command_def split_space_once_def Let_def)
next
  case False
  then have t: "takeWhile (\<lambda>c. c \<noteq> CHR '' '') m = m"
    by (intro takeWhile_eq_all_conv[THEN iffD2]) auto
  show ?thesis using False by (simp add: parse_command_def split_space_once_def Let_def t)
qed

lemma parse_command_snd: "snd (parse_command m) = tl (dropWhile (\<lambda>c. c \<noteq> CHR '' '') m)"
proof (cases "CHR '' '' \<in> set m")
  case True
  then show ?thesis by (simp add: parse_command_def split_space_once_def Let_def)
next
  case False
  then have t: "dropWhile (\<lambda>c. c \<noteq> CHR '' '') m = []"
    by (intro dropWhile_eq_Nil_conv[THEN iffD2]) auto
  show ?thesis using False by (simp add: parse_command_def split_space_once_def Let_def t)
qed

lemma parse_command_arg:
  "CHR '' '' \<notin> set c \<Longrightarrow> parse_command (c @ '' '' @ f) = (c, f)"
  by (simp add: prod_eq_iff parse_command_fst parse_command_snd takeWhile_append2 dropWhile_append2 
        takeWhile_append dropWhile_append)

lemma leading_token_startswith: "fst (parse_command m) = p \<Longrightarrow> startswith m p"
proof -
  assume a: "fst (parse_command m) = p"
  have "m = takeWhile (\<lambda>c. c \<noteq> CHR '' '') m @ dropWhile (\<lambda>c. c \<noteq> CHR '' '') m" by simp
  then have "m = p @ dropWhile (\<lambda>c. c \<noteq> CHR '' '') m" using a unfolding parse_command_fst by metis
  then obtain r where "m = p @ r" ..
  then show ?thesis by (simp add: startswith_def)
qed

lemma startswith_iff: "startswith s p \<longleftrightarrow> (\<exists>r. s = p @ r)"
  unfolding startswith_def
  by (metis append_eq_conv_conj append_take_drop_id)

lemma route_HEARTBEAT: "route m = HEARTBEAT \<longleftrightarrow> m = ''HBT''"
  by (simp add: route_def config_defs)

lemma route_PUBLISH: "route m = PUBLISH \<longleftrightarrow> startswith m ''pub''"
  by (auto simp: route_def config_defs startswith_iff)

lemma route_UNPUBLISH: "route m = UNPUBLISH \<longleftrightarrow> startswith m ''unp''"
  by (auto simp: route_def config_defs startswith_iff)

lemma route_TCP: "route m = REPORT_DATA_ENDPOINT \<longleftrightarrow> startswith m ''TCP''"
  by (auto simp: route_def config_defs startswith_iff)

lemma route_LAP: "route m = LIST_PEERS \<longleftrightarrow> m = ''lap''"
  by (auto simp: route_def config_defs startswith_iff)

lemma route_LPF: "route m = LIST_FILES \<longleftrightarrow> m = ''lpf''"
  by (auto simp: route_def config_defs startswith_iff)

lemma route_SEARCH: "route m = SEARCH \<longleftrightarrow> startswith m ''sch''"
  by (auto simp: route_def config_defs startswith_iff)

lemma route_GET: "route m = GET \<longleftrightarrow> startswith m ''get''"
  by (auto simp: route_def config_defs startswith_iff)

lemma route_AUTH: "route m = AUTH \<longleftrightarrow> startswith m ''auth''"
  by (auto simp: route_def config_defs startswith_iff)

lemma route_UNKNOWN: "route m = UNKNOWN \<longleftrightarrow>
   m \<noteq> ''HBT'' \<and> m \<noteq> ''lap'' \<and> m \<noteq> ''lpf'' \<and> \<not> startswith m ''pub'' \<and> \<not> startswith m ''unp'' \<and>
   \<not> startswith m ''TCP'' \<and> \<not> startswith m ''sch'' \<and> \<not> startswith m ''get'' \<and> \<not> startswith m ''auth''"
  by (auto simp: route_def config_defs startswith_iff)

section \<open>The liveness sweep\<close>

lemma remove_clients_filter:
  "dict_ok ac \<Longrightarrow> distinct cs \<Longrightarrow> set cs \<subseteq> fst ` set ac \<Longrightarrow>
   remove_clients cs ac = Inr (filter (\<lambda>(k, v). k \<notin> set cs) ac)"
proof (induction cs arbitrary: ac)
  case Nil
  then show ?case by simp
next
  case (Cons c cs)
  from Cons.prems obtain d where d: "map_of ac c = Some d"
    by (cases "map_of ac c") (auto simp: map_of_eq_None_iff)
  have ok: "dict_ok (AList.delete c ac)"
    using Cons.prems(1) by (simp add: dict_ok_def distinct_delete)
  have sub: "set cs \<subseteq> fst ` set (AList.delete c ac)"
    using Cons.prems(2,3) by (force simp: AList.delete_eq)
  have "remove_clients cs (AList.delete c ac) = Inr (filter (\<lambda>(k, v). k \<notin> set cs) (AList.delete c ac))"
    using Cons.IH[OF ok _ sub] Cons.prems(2) by simp
  moreover have "filter (\<lambda>(k, v). k \<notin> set cs) (AList.delete c ac) = filter (\<lambda>(k, v). k \<notin> set (c # cs)) ac"
    by (induction ac) (auto simp: AList.delete_eq)
  ultimately show ?case using d by simp
qed

lemma filter_not_in_keys:
  "distinct (map fst ac) \<Longrightarrow>
   filter (\<lambda>(k, v). k \<notin> set (map fst (filter P ac))) ac = filter (\<lambda>x. \<not> P x) ac"
proof (induction ac)
  case Nil
  then show ?case by simp
next
  case (Cons x ac)
  have "filter (\<lambda>(k, v). k \<notin> set (map fst (filter P (x # ac)))) ac = filter (\<lambda>(k, v). k \<notin> set (map fst (filter P ac))) ac"
    using Cons.prems by (intro filter_cong) (auto simp: rev_image_eqI)
  then show ?case using Cons by (cases x) (auto simp: rev_image_eqI)
qed

lemma sweep_filter:
  assumes "dict_ok (active_clients s)"
  shows "check_for_inactive_clients t s =
     Inr (s\<lparr>active_clients := filter (\<lambda>(client, data). \<not> t - last_heartbeat data > HEARTBEAT_TIMEOUT) (active_clients s)\<rparr>)"
proof -
  let ?P = "\<lambda>(client, data). t - last_heartbeat data > HEARTBEAT_TIMEOUT"
  let ?ac = "active_clients s"
  have d: "distinct (inactive_clients t ?ac)"
    using assms unfolding inactive_clients_def dict_ok_def by (simp add: distinct_map_filter)
  have sub: "set (inactive_clients t ?ac) \<subseteq> fst ` set ?ac"
    unfolding inactive_clients_def by auto
  have "remove_clients (inactive_clients t ?ac) ?ac = Inr (filter (\<lambda>(k, v). k \<notin> set (inactive_clients t ?ac)) ?ac)"
    by (rule remove_clients_filter[OF assms d sub])
  also have "filter (\<lambda>(k, v). k \<notin> set (inactive_clients t ?ac)) ?ac = filter (\<lambda>x. \<not> ?P x) ?ac"
    unfolding inactive_clients_def using assms filter_not_in_keys[of ?ac ?P] by (simp add: dict_ok_def)
  also have "\<dots> = filter (\<lambda>(client, data). \<not> t - last_heartbeat data > HEARTBEAT_TIMEOUT) ?ac"
    by (intro filter_cong) auto
  finally show ?thesis by (simp add: check_for_inactive_clients_def)
qed

lemma dict_ok_filter: "dict_ok d \<Longrightarrow> dict_ok (filter P d)"
  by (simp add: dict_ok_def distinct_map_filter)

lemma sweeps_filter:
  "dict_ok (active_clients s) \<Longrightarrow>
   sweeps ts s =
     Inr (s\<lparr>active_clients :=
            filter (\<lambda>(client, data). \<forall>t \<in> set ts. \<not> t - last_heartbeat data > HEARTBEAT_TIMEOUT)
              (active_clients s)\<rparr>)"
proof (induction ts arbitrary: s)
  case Nil
  then show ?case by simp
next
  case (Cons t ts)
  let ?s1 = "s\<lparr>active_clients := filter (\<lambda>(client, data). \<not> t - last_heartbeat data > HEARTBEAT_TIMEOUT) (active_clients s)\<rparr>"
  have ok: "dict_ok (active_clients ?s1)"
    using Cons.prems by (simp add: dict_ok_filter)
  have "sweeps (t # ts) s = sweeps ts ?s1"
    by (simp add: sweep_filter[OF Cons.prems])
  also have "\<dots> = Inr (?s1\<lparr>active_clients := filter (\<lambda>(client, data). \<forall>t \<in> set ts. \<not> t - last_heartbeat data > HEARTBEAT_TIMEOUT) (active_clients ?s1)\<rparr>)"
    by (rule Cons.IH[OF ok])
  also have "\<dots> = Inr (s\<lparr>active_clients := filter (\<lambda>(client, data). \<forall>t \<in> set (t # ts). \<not> t - last_heartbeat data > HEARTBEAT_TIMEOUT) (active_clients s)\<rparr>)"
    by (simp add: case_prod_unfold)
  finally show ?case .
qed

lemma map_of_filter_keep:
  "dict_ok d \<Longrightarrow> (k, v) \<in> set d \<Longrightarrow> P (k, v) \<Longrightarrow> map_of (filter P d) k = Some v"
  unfolding dict_ok_def by (simp add: distinct_map_filter)

lemma map_of_filter_drop:
  "dict_ok d \<Longrightarrow> (k, v) \<in> set d \<Longrightarrow> \<not> P (k, v) \<Longrightarrow> map_of (filter P d) k = None"
  unfolding dict_ok_def by (induction d) (auto simp: map_of_eq_None_iff rev_image_eqI)

text \<open>
  Claim C7. On a session table with pairwise different addresses the sweep at time \<open>now\<close>
  returns, and what remains is the table without the sessions for which
  \<open>now - last_heartbeat > HEARTBEAT_TIMEOUT\<close>, in the same order: a session older than the
  timeout has no entry afterwards, and a session survives every run of sweeps whose clock
  readings are all within the timeout of its last heartbeat.
\<close>

theorem sweep_removes_exactly_stale:
  assumes "dict_ok (active_clients s)"
  shows "\<exists>s'. check_for_inactive_clients now s = Inr s' \<and>
           active_clients s' =
             filter (\<lambda>(client, data). \<not> now - last_heartbeat data > HEARTBEAT_TIMEOUT)
               (active_clients s) \<and>
           (\<forall>(client, data) \<in> set (active_clients s).
              now - last_heartbeat data > HEARTBEAT_TIMEOUT \<longrightarrow>
                map_of (active_clients s') client = None) \<and>
           (\<forall>(client, data) \<in> set (active_clients s). \<forall>ts.
              (\<forall>t \<in> set ts. \<not> t - last_heartbeat data > HEARTBEAT_TIMEOUT) \<longrightarrow>
                (\<exists>s''. sweeps ts s = Inr s'' \<and> map_of (active_clients s'') client = Some data))"
proof -
  let ?s' = "s\<lparr>active_clients := filter (\<lambda>(client, data). \<not> now - last_heartbeat data > HEARTBEAT_TIMEOUT) (active_clients s)\<rparr>"
  have 1: "check_for_inactive_clients now s = Inr ?s'"
    by (rule sweep_filter[OF assms])
  have 2: "\<forall>(client, data) \<in> set (active_clients s).
              now - last_heartbeat data > HEARTBEAT_TIMEOUT \<longrightarrow> map_of (active_clients ?s') client = None"
    using assms by (auto intro!: map_of_filter_drop)
  have 3: "\<forall>(client, data) \<in> set (active_clients s). \<forall>ts.
              (\<forall>t \<in> set ts. \<not> t - last_heartbeat data > HEARTBEAT_TIMEOUT) \<longrightarrow>
                (\<exists>s''. sweeps ts s = Inr s'' \<and> map_of (active_clients s'') client = Some data)"
    using assms by (auto simp: sweeps_filter intro!: map_of_filter_keep)
  from 1 2 3 show ?thesis by simp
qed

theorem sweep_removes_exactly_stale_witness:
  "dict_ok (active_clients demo) \<and>
   check_for_inactive_clients 10 demo =
     Inr (demo\<lparr>active_clients :=
            [((''10.0.0.2'', 5002), \<lparr>username = ''bob'', last_heartbeat = 8, tcp_address = None\<rparr>)]\<rparr>) \<and>
   sweeps [9, 10, 11] demo =
     Inr (demo\<lparr>active_clients :=
            [((''10.0.0.2'', 5002), \<lparr>username = ''bob'', last_heartbeat = 8, tcp_address = None\<rparr>)]\<rparr>)"
  using sweep_removes_exactly_stale [of demo 10]
  by (simp add: dict_ok_def demo_def check_for_inactive_clients_def inactive_clients_def
      HEARTBEAT_TIMEOUT_def AList.delete_eq)

text \<open>
  Claim C8. The sweep returns the state with the same publication registry (and the same
  credential table), whichever sessions it removes; in the example the removed peer is
  still listed as a publisher afterwards.
\<close>

theorem sweep_keeps_registry:
  assumes "dict_ok (active_clients s)"
  shows "\<exists>s'. check_for_inactive_clients now s = Inr s' \<and>
           published_files s' = published_files s \<and> credentials s' = credentials s"
  by (simp add: sweep_filter[OF assms])

theorem sweep_keeps_registry_witness:
  "dict_ok (active_clients demo) \<and>
   (\<exists>s'. check_for_inactive_clients 10 demo = Inr s' \<and>
      map_of (active_clients s') (''10.0.0.1'', 5001) = None \<and>
      published_files s' = [(''report.pdf'', [''alice'']), (''notes.txt'', [''alice'', ''bob''])])"
  using sweep_keeps_registry [of demo 10]
  by (simp add: dict_ok_def demo_def check_for_inactive_clients_def inactive_clients_def
      HEARTBEAT_TIMEOUT_def AList.delete_eq)

section \<open>The control loop\<close>







lemma lap_shape:
  "handle_list_active_peers s a = (s', out) \<Longrightarrow> single_reply a out \<and> s' = s"
  by (auto simp: handle_list_active_peers_def single_reply_def Let_def split: option.splits)

lemma lpf_shape:
  "handle_list_published_files s a = (s', out) \<Longrightarrow> single_reply a out \<and> s' = s"
  by (auto simp: handle_list_published_files_def single_reply_def Let_def split: option.splits)

lemma search_shape:
  "handle_search_files s a m = (s', out) \<Longrightarrow> single_reply a out \<and> s' = s"
  by (auto simp: handle_search_files_def single_reply_def Let_def split: option.splits)

lemma get_shape:
  "handle_get_request s a m = Inr (s', out) \<Longrightarrow> single_reply a out \<and> s' = s"
  by (auto simp: handle_get_request_def single_reply_def Let_def split: option.splits sum.splits)






section \<open>Dispatch, authentication and the list requests\<close>

text \<open>
  Claim C4, as stated, fails: the loop tests \<open>startswith\<close> for the commands that take an
  argument and equality of the whole message for the others. \<open>publish a.txt\<close> has the
  leading token \<open>publish\<close>, which is no command, yet it is handled as PUBLISH (and, from
  an address without a session, gets no reply at all, not \<open>ERR\<close>); \<open>HBT now\<close> has the
  leading token \<open>HBT\<close> and is not handled as a heartbeat.
\<close>

theorem dispatch_by_leading_token_counterexample:
  "fst (parse_command ''publish a.txt'') \<noteq> CMD_PUBLISH \<and>
   route ''publish a.txt'' = PUBLISH \<and>
   dispatch 0 demo (''10.0.0.9'', 7000) ''publish a.txt'' = Inr (demo, []) \<and>
   fst (parse_command ''HBT now'') = MSG_HEARTBEAT \<and>
   route ''HBT now'' = UNKNOWN"
  by (simp add: parse_command_fst route_def config_defs startswith_def dispatch_def
      handle_publish_file_def demo_def)

text \<open>
  Claim C4, amended. A stripped message is handled as HEARTBEAT exactly when it is \<open>HBT\<close>,
  and as PUBLISH, UNPUBLISH, REPORT_DATA_ENDPOINT, SEARCH, GET or AUTH exactly when it
  starts with \<open>pub\<close>, \<open>unp\<close>, \<open>TCP\<close>, \<open>sch\<close>, \<open>get\<close> or \<open>auth\<close>, hence whenever its
  leading token is that literal; a message that is none of \<open>HBT\<close>, \<open>lap\<close>, \<open>lpf\<close> and
  starts with none of the six prefixes is answered with \<open>ERR\<close> and changes nothing.
\<close>

theorem dispatch_by_prefix:
  "(route m = HEARTBEAT \<longleftrightarrow> m = MSG_HEARTBEAT) \<and>
   (route m = PUBLISH \<longleftrightarrow> startswith m CMD_PUBLISH) \<and>
   (route m = UNPUBLISH \<longleftrightarrow> startswith m CMD_UNPUBLISH) \<and>
   (route m = REPORT_DATA_ENDPOINT \<longleftrightarrow> startswith m MSG_TCP) \<and>
   (route m = SEARCH \<longleftrightarrow> startswith m CMD_SEARCH) \<and>
   (route m = GET \<longleftrightarrow> startswith m CMD_GET) \<and>
   (route m = AUTH \<longleftrightarrow> startswith m ''auth'') \<and>
   (fst (parse_command m) = CMD_PUBLISH \<longrightarrow> route m = PUBLISH) \<and>
   (fst (parse_command m) = CMD_UNPUBLISH \<longrightarrow> route m = UNPUBLISH) \<and>
   (fst (parse_command m) = MSG_TCP \<longrightarrow> route m = REPORT_DATA_ENDPOINT) \<and>
   (fst (parse_command m) = CMD_SEARCH \<longrightarrow> route m = SEARCH) \<and>
   (fst (parse_command m) = CMD_GET \<longrightarrow> route m = GET) \<and>
   (fst (parse_command m) = ''auth'' \<longrightarrow> route m = AUTH) \<and>
   (m \<noteq> MSG_HEARTBEAT \<and> m \<noteq> CMD_LIST_ACTIVE_PEERS \<and> m \<noteq> CMD_LIST_PUBLISHED_FILES \<and>
    \<not> startswith m CMD_PUBLISH \<and> \<not> startswith m CMD_UNPUBLISH \<and> \<not> startswith m MSG_TCP \<and>
    \<not> startswith m CMD_SEARCH \<and> \<not> startswith m CMD_GET \<and> \<not> startswith m ''auth'' \<longrightarrow>
      dispatch now s a m = Inr (s, [(MSG_ERROR, a)]))"
proof -
  have unk: "m \<noteq> MSG_HEARTBEAT \<and> m \<noteq> CMD_LIST_ACTIVE_PEERS \<and> m \<noteq> CMD_LIST_PUBLISHED_FILES \<and>
    \<not> startswith m CMD_PUBLISH \<and> \<not> startswith m CMD_UNPUBLISH \<and> \<not> startswith m MSG_TCP \<and>
    \<not> startswith m CMD_SEARCH \<and> \<not> startswith m CMD_GET \<and> \<not> startswith m ''auth'' \<longrightarrow>
      dispatch now s a m = Inr (s, [(MSG_ERROR, a)])"
    by (simp add: dispatch_def route_def)
  show ?thesis
    using unk
    by (simp add: route_HEARTBEAT route_PUBLISH route_UNPUBLISH route_TCP route_SEARCH route_GET
        route_AUTH config_defs leading_token_startswith)
qed

theorem dispatch_by_prefix_witness:
  "fst (parse_command ''pub a.txt'') = CMD_PUBLISH \<and> route ''pub a.txt'' = PUBLISH \<and>
   route ''publish a.txt'' = PUBLISH \<and>
   dispatch 0 demo (''10.0.0.9'', 7000) ''hello there'' = Inr (demo, [(''ERR'', (''10.0.0.9'', 7000))])"
  using dispatch_by_prefix [of "''pub a.txt''" 0 demo "(''10.0.0.9'', 7000)"]
    dispatch_by_prefix [of "''hello there''" 0 demo "(''10.0.0.9'', 7000)"]
  by (simp add: parse_command_fst route_def config_defs startswith_def dispatch_def)

text \<open>
  Claim C9. An AUTH message of three parts whose username is borne by a session at another
  address is answered with \<open>ERR\<close> and leaves the whole state as it is, whatever the
  password and the credential table.
\<close>

theorem auth_active_username_rejected:
  assumes "split message = [c, user, password]"
    and "(other_address, data) \<in> set (active_clients s)"
    and "other_address \<noteq> client_address"
    and "username data = user"
  shows "authenticate_client now s client_address message = (s, [(MSG_ERROR, client_address)])"
  using assms by (force simp: authenticate_client_def)

theorem auth_active_username_rejected_witness:
  "split ''auth alice pw1'' = [''auth'', ''alice'', ''pw1''] \<and>
   credentials demo ''alice'' = Some ''pw1'' \<and>
   authenticate_client 9 demo (''10.0.0.3'', 5003) ''auth alice pw1'' =
     (demo, [(''ERR'', (''10.0.0.3'', 5003))]) \<and>
   authenticate_client 9 demo (''10.0.0.3'', 5003) ''auth alice wrong'' =
     (demo, [(''ERR'', (''10.0.0.3'', 5003))])"
  using auth_active_username_rejected [of "''auth alice pw1''" "''auth''" "''alice''" "''pw1''"
      "(''10.0.0.1'', 5001)" "\<lparr>username = ''alice'', last_heartbeat = 1, tcp_address = Some (''10.0.0.1'', ''9001'')\<rparr>"
      demo "(''10.0.0.3'', 5003)" 9]
  by (simp add: split_def is_space_def demo_def authenticate_client_def config_defs)

text \<open>
  Claim C10. From an address without a session, \<open>lap\<close> and \<open>lpf\<close> produce no datagram
  and no change of state, in the handlers and through the dispatch of the loop.
\<close>

theorem list_requests_unauthenticated_silent:
  assumes "map_of (active_clients s) client_address = None"
  shows "handle_list_active_peers s client_address = (s, []) \<and>
         handle_list_published_files s client_address = (s, []) \<and>
         dispatch now s client_address CMD_LIST_ACTIVE_PEERS = Inr (s, []) \<and>
         dispatch now s client_address CMD_LIST_PUBLISHED_FILES = Inr (s, [])"
  using assms
  by (simp add: handle_list_active_peers_def handle_list_published_files_def dispatch_def
      route_def config_defs startswith_def)

theorem list_requests_unauthenticated_silent_witness:
  "map_of (active_clients demo) (''10.0.0.9'', 7000) = None \<and>
   dispatch 0 demo (''10.0.0.9'', 7000) ''lap'' = Inr (demo, []) \<and>
   dispatch 0 demo (''10.0.0.9'', 7000) ''lpf'' = Inr (demo, []) \<and>
   dispatch 0 demo (''10.0.0.2'', 5002) ''lap'' = Inr (demo, [(''alice'', (''10.0.0.2'', 5002))])"
  using list_requests_unauthenticated_silent [of demo "(''10.0.0.9'', 7000)" 0]
  by (simp add: demo_def dispatch_def route_def config_defs startswith_def
      handle_list_active_peers_def handle_list_published_files_def)

section \<open>Search and resolution\<close>

lemma str_in_iff: "str_in sub s \<longleftrightarrow> occurs_in sub s"
proof (induction s)
  case Nil
  then show ?case by (simp add: occurs_in_def)
next
  case (Cons c cs)
  show ?case
  proof
    assume "str_in sub (c # cs)"
    then consider "startswith (c # cs) sub" | "str_in sub cs" by auto
    then show "occurs_in sub (c # cs)"
    proof cases
      case 1
      then obtain r where "c # cs = sub @ r" by (auto simp: startswith_iff)
      then have "c # cs = [] @ sub @ r" by simp
      then show ?thesis unfolding occurs_in_def by blast
    next
      case 2
      then obtain pre suf where "cs = pre @ sub @ suf" using Cons.IH by (auto simp: occurs_in_def)
      then have "c # cs = (c # pre) @ sub @ suf" by simp
      then show ?thesis unfolding occurs_in_def by blast
    qed
  next
    assume "occurs_in sub (c # cs)"
    then obtain pre suf where e: "c # cs = pre @ sub @ suf" by (auto simp: occurs_in_def)
    show "str_in sub (c # cs)"
    proof (cases pre)
      case Nil
      with e have "startswith (c # cs) sub" by (auto simp: startswith_iff)
      then show ?thesis by simp
    next
      case (Cons p pre')
      with e have "cs = pre' @ sub @ suf" by simp
      then have "occurs_in sub cs" unfolding occurs_in_def by blast
      then show ?thesis using Cons.IH by simp
    qed
  qed
qed

text \<open>
  Claim C1, amended. For a requester with a session the SEARCH handler replies with the
  filenames, in registry order and joined by \<open>", "\<close>, in which the substring occurs as a
  contiguous block of characters (compared exactly, so case matters) and whose publisher
  list does not contain the requester's username; the reply is \<open>No files found\<close> when
  there is none. The state is unchanged.
\<close>

theorem search_excludes_requesters_files:
  assumes "map_of (active_clients s) client_address = Some data"
  shows "\<exists>matching.
           matching =
             map fst (filter (\<lambda>(filename, publishers).
                                occurs_in (snd (parse_command message)) filename \<and>
                                username data \<notin> set publishers)
                        (published_files s)) \<and>
           handle_search_files s client_address message =
             (s, [(if matching = [] then RESP_NO_FILES_FOUND else join '', '' matching,
                   client_address)])"
  using assms by (simp add: handle_search_files_def Let_def str_in_iff)

theorem search_excludes_requesters_files_witness:
  "map_of (active_clients demo) (''10.0.0.2'', 5002) =
     Some \<lparr>username = ''bob'', last_heartbeat = 8, tcp_address = None\<rparr> \<and>
   handle_search_files demo (''10.0.0.2'', 5002) ''sch rep'' =
     (demo, [(''report.pdf'', (''10.0.0.2'', 5002))]) \<and>
   handle_search_files demo (''10.0.0.2'', 5002) ''sch REP'' =
     (demo, [(''No files found'', (''10.0.0.2'', 5002))])"
  using search_excludes_requesters_files [of demo "(''10.0.0.2'', 5002)"
      "\<lparr>username = ''bob'', last_heartbeat = 8, tcp_address = None\<rparr>" "''sch rep''"]
  by (simp add: demo_def handle_search_files_def parse_command_snd startswith_def config_defs)

text \<open>
  Claim C1, as stated, fails. \<open>notes.txt\<close> is published by alice and bob. Its publisher
  set without alice is not empty, so the claim lists it for alice's search; the handler
  tests \<open>username not in publishers\<close> and answers \<open>No files found\<close>.
\<close>

theorem search_copublished_file_counterexample:
  "search_as_claimed (published_files demo) ''notes'' ''alice'' = [''notes.txt''] \<and>
   handle_search_files demo (''10.0.0.1'', 5001) ''sch notes'' =
     (demo, [(''No files found'', (''10.0.0.1'', 5001))])"
  by (simp add: search_as_claimed_def str_in_iff[symmetric] demo_def handle_search_files_def
      parse_command_snd startswith_def config_defs)

lemma find_peer_address_find:
  "find_peer_address ac u = map_option fst (findByUsername ac u)"
  by (induction ac) (auto simp: findByUsername_def)

lemma findByUsername_lookup:
  assumes "dict_ok ac" and "findByUsername ac u = Some (addr, data)"
  shows "map_of ac addr = Some data"
proof -
  from assms(2) have "(addr, data) \<in> set ac"
    unfolding findByUsername_def by (auto simp: find_Some_iff in_set_conv_nth)
  with assms(1) show ?thesis by (simp add: dict_ok_def)
qed

lemma find_active_peer_candidates:
  assumes "dict_ok ac"
  shows "find_active_peer ac requester publishers =
           Inr (case candidates ac requester publishers of
                  [] \<Rightarrow> None
                | (p, host, port) # rest \<Rightarrow> Some (p @ '' '' @ host @ '' '' @ port))"
proof (induction publishers)
  case Nil
  then show ?case by (simp add: candidates_def map_filter_simps)
next
  case (Cons p ps)
  show ?case
  proof (cases "p = requester")
    case True
    with Cons show ?thesis by (simp add: candidates_def map_filter_simps)
  next
    case False
    show ?thesis
    proof (cases "findByUsername ac p")
      case None
      with False Cons show ?thesis
        by (simp add: candidates_def map_filter_simps find_peer_address_find endpoint_of_def)
    next
      case (Some sess)
      obtain addr data where sess: "sess = (addr, data)" by (cases sess)
      have look: "map_of ac addr = Some data"
        using findByUsername_lookup[OF assms] Some sess by simp
      show ?thesis
      proof (cases "tcp_address data")
        case None
        with False Cons Some sess look show ?thesis
          by (simp add: candidates_def map_filter_simps find_peer_address_find endpoint_of_def)
      next
        case (Some ep)
        obtain host port where "ep = (host, port)" by (cases ep)
        with Some False \<open>findByUsername ac p = Some sess\<close> sess look show ?thesis
          by (simp add: candidates_def map_filter_simps find_peer_address_find endpoint_of_def)
      qed
    qed
  qed
qed

text \<open>
  Claim C2. For a requester with a session, GET replies \<open>File not found\<close> when the
  filename has no entry; otherwise it walks the publishers in list order, passes over the
  requester's own name, over names without a session and over sessions without an
  endpoint, and replies \<open>username host port\<close> for the first one left, or
  \<open>No active peer has this file\<close> when none is left. The two failure replies differ.
  A publisher's session is the first one in the table that bears its name, as
  \<open>findByUsername\<close> finds it.
\<close>

theorem get_resolves_first_reachable_publisher:
  assumes "dict_ok (active_clients s)"
    and "map_of (active_clients s) client_address = Some requester"
  shows "handle_get_request s client_address message =
           Inr (s, [(get_reply_spec s (username requester) (snd (parse_command message)),
                     client_address)]) \<and>
         RESP_FILE_NOT_FOUND \<noteq> RESP_NO_ACTIVE_PEER_HAS_FILE"
  using assms
  by (simp add: handle_get_request_def get_reply_spec_def Let_def find_active_peer_candidates
      config_defs split: option.splits list.splits)

theorem get_resolves_first_reachable_publisher_witness:
  "dict_ok (active_clients demo) \<and>
   handle_get_request demo (''10.0.0.2'', 5002) ''get notes.txt'' =
     Inr (demo, [(''alice 10.0.0.1 9001'', (''10.0.0.2'', 5002))]) \<and>
   handle_get_request demo (''10.0.0.1'', 5001) ''get notes.txt'' =
     Inr (demo, [(''No active peer has this file'', (''10.0.0.1'', 5001))]) \<and>
   handle_get_request demo (''10.0.0.1'', 5001) ''get other.txt'' =
     Inr (demo, [(''File not found'', (''10.0.0.1'', 5001))])"
  using get_resolves_first_reachable_publisher [of demo "(''10.0.0.2'', 5002)"
      "\<lparr>username = ''bob'', last_heartbeat = 8, tcp_address = None\<rparr>" "''get notes.txt''"]
  by (simp add: dict_ok_def demo_def handle_get_request_def parse_command_snd config_defs Let_def
      get_reply_spec_def candidates_def endpoint_of_def findByUsername_def map_filter_simps)

section \<open>The publication registry\<close>

lemma set_update_subset: "set (AList.update k v al) \<subseteq> insert (k, v) (set al)"
  by (induction al) auto

lemma set_delete_subset: "set (AList.delete k al) \<subseteq> set al"
  by (auto simp: AList.delete_eq)

lemma pub_message: "snd (parse_command (CMD_PUBLISH @ CHR '' '' # f)) = f"
  using parse_command_arg[of CMD_PUBLISH f] by (simp add: config_defs)

lemma unp_message: "snd (parse_command (CMD_UNPUBLISH @ CHR '' '' # f)) = f"
  using parse_command_arg[of CMD_UNPUBLISH f] by (simp add: config_defs)

lemma publishers_of_update:
  "publishers_of (AList.update f ps reg) g = (if g = f then set ps else publishers_of reg g)"
  by (simp add: publishers_of_def update_conv')

lemma publishers_of_delete:
  "publishers_of (AList.delete f reg) g = (if g = f then {} else publishers_of reg g)"
  by (simp add: publishers_of_def delete_conv')

lemma publish_registry:
  assumes "map_of (active_clients s) a = Some d"
  shows "publishers_of (published_files (fst (handle_publish_file s a m))) g =
           (if g = snd (parse_command m) then insert (username d) (publishers_of (published_files s) g)
            else publishers_of (published_files s) g)"
proof (cases "map_of (published_files s) (snd (parse_command m))")
  case None
  then have p: "publishers_of (published_files s) (snd (parse_command m)) = {}"
    by (simp add: publishers_of_def)
  show ?thesis using assms None p
    by (simp add: handle_publish_file_def Let_def publishers_of_update)
next
  case (Some ps)
  then have p: "publishers_of (published_files s) (snd (parse_command m)) = set ps"
    by (simp add: publishers_of_def)
  show ?thesis using assms Some p
    by (simp add: handle_publish_file_def Let_def publishers_of_update insert_absorb)
qed

lemma unpublish_registry:
  assumes "map_of (active_clients s) a = Some d" and "publishers_distinct (published_files s)"
  shows "publishers_of (published_files (fst (handle_unpublish_file s a m))) g =
           (if g = snd (parse_command m) then publishers_of (published_files s) g - {username d}
            else publishers_of (published_files s) g)"
proof (cases "map_of (published_files s) (snd (parse_command m))")
  case None
  then have p: "publishers_of (published_files s) (snd (parse_command m)) = {}"
    by (simp add: publishers_of_def)
  show ?thesis using assms(1) None p
    by (simp add: handle_unpublish_file_def Let_def)
next
  case (Some ps)
  then have p: "publishers_of (published_files s) (snd (parse_command m)) = set ps"
    by (simp add: publishers_of_def)
  from Some have "(snd (parse_command m), ps) \<in> set (published_files s)" by (rule map_of_SomeD)
  with assms(2) have "distinct ps" by (auto simp: publishers_distinct_def)
  then have r: "set (remove1 (username d) ps) = set ps - {username d}" by simp
  show ?thesis
  proof (cases "username d \<in> set ps")
    case True
    have e: "remove1 (username d) ps = [] \<Longrightarrow> set ps - {username d} = {}"
      using r by simp
    show ?thesis using assms(1) Some p True r e
      by (simp add: handle_unpublish_file_def Let_def publishers_of_update publishers_of_delete)
  next
    case False
    then have "set ps - {username d} = set ps" by simp
    with assms(1) Some p False show ?thesis
      by (simp add: handle_unpublish_file_def Let_def)
  qed
qed

lemma distinct_update_entry:
  "publishers_distinct reg \<Longrightarrow> distinct ps \<Longrightarrow> publishers_distinct (AList.update f ps reg)"
  unfolding publishers_distinct_def using set_update_subset[of f ps reg] by auto

lemma distinct_delete_entry:
  "publishers_distinct reg \<Longrightarrow> publishers_distinct (AList.delete f reg)"
  unfolding publishers_distinct_def using set_delete_subset[of f reg] by auto

lemma distinct_lookup:
  "publishers_distinct reg \<Longrightarrow> map_of reg f = Some ps \<Longrightarrow> distinct ps"
  unfolding publishers_distinct_def by (auto dest: map_of_SomeD)

lemma publish_distinct:
  assumes "publishers_distinct (published_files s)"
  shows "publishers_distinct (published_files (fst (handle_publish_file s a m)))"
proof (cases "map_of (active_clients s) a")
  case None
  with assms show ?thesis by (simp add: handle_publish_file_def)
next
  case (Some d)
  show ?thesis
  proof (cases "map_of (published_files s) (snd (parse_command m))")
    case None
    with Some assms show ?thesis
      by (simp add: handle_publish_file_def Let_def distinct_update_entry)
  next
    case (Some ps)
    then have "distinct ps" using assms by (rule distinct_lookup[rotated])
    with Some \<open>map_of (active_clients s) a = Some d\<close> assms show ?thesis
      by (simp add: handle_publish_file_def Let_def distinct_update_entry)
  qed
qed

lemma unpublish_distinct:
  assumes "publishers_distinct (published_files s)"
  shows "publishers_distinct (published_files (fst (handle_unpublish_file s a m)))"
proof (cases "map_of (active_clients s) a")
  case None
  with assms show ?thesis by (simp add: handle_unpublish_file_def)
next
  case (Some d)
  show ?thesis
  proof (cases "map_of (published_files s) (snd (parse_command m))")
    case None
    with Some assms show ?thesis
      by (simp add: handle_unpublish_file_def Let_def)
  next
    case (Some ps)
    then have "distinct ps" using assms by (rule distinct_lookup[rotated])
    then have "distinct (remove1 (username d) ps)" by simp
    with Some \<open>map_of (active_clients s) a = Some d\<close> assms show ?thesis
      by (simp add: handle_unpublish_file_def Let_def distinct_update_entry distinct_delete_entry)
  qed
qed

lemma serve_clients: "active_clients (fst (serve s r)) = active_clients s"
  by (cases r) (auto simp: handle_publish_file_def handle_unpublish_file_def Let_def split: option.splits)

lemma serve_distinct:
  "publishers_distinct (published_files s) \<Longrightarrow> publishers_distinct (published_files (fst (serve s r)))"
  by (cases r) (simp_all add: publish_distinct unpublish_distinct)

lemma serve_all_distinct:
  "publishers_distinct (published_files s) \<Longrightarrow>
   publishers_distinct (published_files (serve_all s rs))"
  by (induction rs arbitrary: s) (simp_all add: serve_distinct)

lemma serve_unauthenticated:
  "map_of (active_clients s) a = None \<Longrightarrow> serve s (PubRequest a f) = (s, []) \<and> serve s (UnpRequest a f) = (s, [])"
  by (simp add: handle_publish_file_def handle_unpublish_file_def)

lemma serve_all_net_effect:
  "publishers_distinct (published_files s) \<Longrightarrow>
   publishers_of (published_files (serve_all s rs)) f =
     net_effect f (ops_of (active_clients s) rs) (publishers_of (published_files s) f)"
proof (induction rs arbitrary: s)
  case Nil
  then show ?case by simp
next
  case (Cons r rs)
  have ih: "publishers_of (published_files (serve_all (fst (serve s r)) rs)) f =
     net_effect f (ops_of (active_clients s) rs) (publishers_of (published_files (fst (serve s r))) f)"
    using Cons.IH[OF serve_distinct[OF Cons.prems]] by (simp add: serve_clients)
  show ?case
  proof (cases r)
    case (PubRequest a g)
    show ?thesis
    proof (cases "map_of (active_clients s) a")
      case None
      with PubRequest ih serve_unauthenticated[of s a g] show ?thesis by simp
    next
      case (Some d)
      with PubRequest ih publish_registry[OF Some, of "CMD_PUBLISH @ '' '' @ g" f] show ?thesis
        by (simp add: pub_message)
    qed
  next
    case (UnpRequest a g)
    show ?thesis
    proof (cases "map_of (active_clients s) a")
      case None
      with UnpRequest ih serve_unauthenticated[of s a g] show ?thesis by simp
    next
      case (Some d)
      with UnpRequest ih unpublish_registry[OF Some Cons.prems, of "CMD_UNPUBLISH @ '' '' @ g" f]
      show ?thesis by (simp add: unp_message)
    qed
  qed
qed

lemma publish_idempotent:
  assumes "map_of (active_clients s) a = Some d" and "username d \<in> publishers_of (published_files s) f"
  shows "serve s (PubRequest a f) = (s, [(RESP_FILE_PUBLISHED, a)])"
  using assms
  by (auto simp: handle_publish_file_def Let_def pub_message publishers_of_def split: option.splits)

lemma unpublish_absent:
  assumes "map_of (active_clients s) a = Some d" and "username d \<notin> publishers_of (published_files s) f"
  shows "serve s (UnpRequest a f) = (s, [(RESP_FILE_UNPUB_FAILED, a)])"
  using assms
  by (auto simp: handle_unpublish_file_def Let_def unp_message publishers_of_def split: option.splits)

text \<open>
  Claim C5. Starting from a registry whose publisher lists have no repetition, after any
  sequence of \<open>pub\<close> and \<open>unp\<close> requests the set of publishers of a filename is the net
  effect, in order, of the set operations the requests stand for (a request from an
  address without a session stands for none). Publishing a name that is already there
  changes nothing and is answered as published; unpublishing a name that is not there
  changes nothing and is answered \<open>File unpublication failed\<close>. Neither handler has a
  raising branch. Lists without repetition are what the handlers start from and keep.
\<close>

theorem publish_unpublish_net_effect:
  assumes "publishers_distinct (published_files s)"
  shows "publishers_of (published_files (serve_all s requests)) f =
           net_effect f (ops_of (active_clients s) requests) (publishers_of (published_files s) f) \<and>
         publishers_distinct (published_files (serve_all s requests)) \<and>
         publishers_distinct (published_files (init creds)) \<and>
         (\<forall>a d. map_of (active_clients s) a = Some d \<and>
                 username d \<in> publishers_of (published_files s) f \<longrightarrow>
            serve s (PubRequest a f) = (s, [(RESP_FILE_PUBLISHED, a)])) \<and>
         (\<forall>a d. map_of (active_clients s) a = Some d \<and>
                 username d \<notin> publishers_of (published_files s) f \<longrightarrow>
            serve s (UnpRequest a f) = (s, [(RESP_FILE_UNPUB_FAILED, a)]))"
proof (intro conjI allI impI)
  show "publishers_of (published_files (serve_all s requests)) f =
          net_effect f (ops_of (active_clients s) requests) (publishers_of (published_files s) f)"
    by (rule serve_all_net_effect[OF assms])
next
  show "publishers_distinct (published_files (serve_all s requests))"
    by (rule serve_all_distinct[OF assms])
next
  show "publishers_distinct (published_files (init creds))"
    by (simp add: init_def publishers_distinct_def)
next
  fix a d
  assume "map_of (active_clients s) a = Some d \<and> username d \<in> publishers_of (published_files s) f"
  then show "serve s (PubRequest a f) = (s, [(RESP_FILE_PUBLISHED, a)])"
    using publish_idempotent[of s a d f] by simp
next
  fix a d
  assume "map_of (active_clients s) a = Some d \<and> username d \<notin> publishers_of (published_files s) f"
  then show "serve s (UnpRequest a f) = (s, [(RESP_FILE_UNPUB_FAILED, a)])"
    using unpublish_absent[of s a d f] by simp
qed

theorem publish_unpublish_net_effect_witness:
  "publishers_distinct (published_files demo) \<and>
   published_files
     (serve_all demo
        [PubRequest (''10.0.0.2'', 5002) ''report.pdf'', PubRequest (''10.0.0.2'', 5002) ''report.pdf'',
         UnpRequest (''10.0.0.1'', 5001) ''report.pdf'', UnpRequest (''10.0.0.1'', 5001) ''report.pdf'',
         PubRequest (''10.0.0.9'', 7000) ''report.pdf'']) =
     [(''report.pdf'', [''bob'']), (''notes.txt'', [''alice'', ''bob''])] \<and>
   serve demo (PubRequest (''10.0.0.1'', 5001) ''report.pdf'') =
     (demo, [(''File published successfully'', (''10.0.0.1'', 5001))]) \<and>
   serve demo (UnpRequest (''10.0.0.2'', 5002) ''report.pdf'') =
     (demo, [(''File unpublication failed'', (''10.0.0.2'', 5002))])"
  using publish_unpublish_net_effect [where s = demo and f = "''report.pdf''" and requests =
      "[PubRequest (''10.0.0.2'', 5002) ''report.pdf'', PubRequest (''10.0.0.2'', 5002) ''report.pdf'',
        UnpRequest (''10.0.0.1'', 5001) ''report.pdf'', UnpRequest (''10.0.0.1'', 5001) ''report.pdf'',
        PubRequest (''10.0.0.9'', 7000) ''report.pdf'']"]
  by (simp add: publishers_distinct_def demo_def handle_publish_file_def handle_unpublish_file_def
      parse_command_snd config_defs AList.delete_eq Let_def)

lemma no_empty_update_entry:
  "no_empty_entry reg \<Longrightarrow> ps \<noteq> [] \<Longrightarrow> no_empty_entry (AList.update f ps reg)"
  unfolding no_empty_entry_def using set_update_subset[of f ps reg] by auto

lemma no_empty_delete_entry:
  "no_empty_entry reg \<Longrightarrow> no_empty_entry (AList.delete f reg)"
  unfolding no_empty_entry_def using set_delete_subset[of f reg] by auto

lemma publish_no_empty:
  assumes "no_empty_entry (published_files s)"
  shows "no_empty_entry (published_files (fst (handle_publish_file s a m)))"
  using assms
  by (simp add: handle_publish_file_def Let_def no_empty_update_entry split: option.splits)

lemma unpublish_no_empty:
  assumes "no_empty_entry (published_files s)"
  shows "no_empty_entry (published_files (fst (handle_unpublish_file s a m)))"
  using assms
  by (simp add: handle_unpublish_file_def Let_def no_empty_update_entry no_empty_delete_entry
      split: option.splits)

lemma heartbeat_registry: "published_files (process_heartbeat now s a) = published_files s"
  by (simp add: process_heartbeat_def split: option.splits)

lemma tcp_registry: "published_files (process_tcp_address s a m) = published_files s"
  by (simp add: process_tcp_address_def split: option.splits list.splits)

lemma auth_registry: "published_files (fst (authenticate_client now s a m)) = published_files s"
  by (simp add: authenticate_client_def split: list.splits)

lemma dispatch_no_empty:
  assumes "dispatch now s a m = Inr (s', out)" and "no_empty_entry (published_files s)"
  shows "no_empty_entry (published_files s')"
proof (cases "route m")
  case HEARTBEAT
  with assms show ?thesis by (auto simp: dispatch_def heartbeat_registry)
next
  case PUBLISH
  with assms publish_no_empty[of s a m] show ?thesis by (auto simp: dispatch_def)
next
  case UNPUBLISH
  with assms unpublish_no_empty[of s a m] show ?thesis by (auto simp: dispatch_def)
next
  case REPORT_DATA_ENDPOINT
  with assms show ?thesis by (auto simp: dispatch_def tcp_registry)
next
  case LIST_PEERS
  with assms lap_shape[of s a s' out] show ?thesis by (simp add: dispatch_def)
next
  case LIST_FILES
  with assms lpf_shape[of s a s' out] show ?thesis by (simp add: dispatch_def)
next
  case SEARCH
  with assms search_shape[of s a m s' out] show ?thesis by (simp add: dispatch_def)
next
  case GET
  with assms get_shape[of s a m s' out] show ?thesis by (simp add: dispatch_def)
next
  case AUTH
  with assms auth_registry[of now s a m] show ?thesis by (auto simp: dispatch_def)
next
  case UNKNOWN
  with assms show ?thesis by (auto simp: dispatch_def)
qed

lemma run_iteration_no_empty:
  assumes "dict_ok (active_clients s)" and "no_empty_entry (published_files s)"
  shows "\<exists>s' out. run_iteration decode sweep_time now s ev = Continue s' out \<and>
           no_empty_entry (published_files s')"
proof -
  let ?s1 = "s\<lparr>active_clients := filter (\<lambda>(client, data). \<not> sweep_time - last_heartbeat data > HEARTBEAT_TIMEOUT) (active_clients s)\<rparr>"
  have sw: "check_for_inactive_clients sweep_time s = Inr ?s1"
    by (rule sweep_filter[OF assms(1)])
  have ne: "no_empty_entry (published_files ?s1)" using assms(2) by simp
  show ?thesis
  proof (cases ev)
    case Timeout
    with sw ne show ?thesis by (simp add: run_iteration_def)
  next
    case (Datagram raw a)
    show ?thesis
    proof (cases "decode raw")
      case (Inl e)
      with sw ne Datagram show ?thesis by (simp add: run_iteration_def)
    next
      case (Inr msg)
      show ?thesis
      proof (cases "dispatch now ?s1 a (strip msg)")
        case (Inl e)
        with sw ne Datagram \<open>decode raw = Inr msg\<close> show ?thesis by (simp add: run_iteration_def)
      next
        case (Inr r)
        obtain s2 out where r: "r = (s2, out)" by (cases r)
        have "no_empty_entry (published_files s2)"
          using dispatch_no_empty[of now ?s1 a "strip msg" s2 out] Inr r ne by simp
        with sw Datagram \<open>decode raw = Inr msg\<close> Inr r show ?thesis
          by (simp add: run_iteration_def)
      qed
    qed
  qed
qed

lemma publish_then_unpublish_absent:
  assumes "map_of (active_clients s) a = Some d"
    and "map_of (published_files s) f = None \<or> map_of (published_files s) f = Some [username d]"
  shows "f \<notin> set (map fst (published_files (serve_all s [PubRequest a f, UnpRequest a f])))"
proof -
  let ?s1 = "fst (serve s (PubRequest a f))"
  have ac: "map_of (active_clients ?s1) a = Some d"
    using assms(1) serve_clients[of s "PubRequest a f"] by simp
  have one: "map_of (published_files ?s1) f = Some [username d]"
    using assms by (auto simp: handle_publish_file_def Let_def pub_message update_conv')
  have "published_files (fst (serve ?s1 (UnpRequest a f))) = AList.delete f (published_files ?s1)"
    using ac one by (simp add: handle_unpublish_file_def Let_def unp_message)
  then have "map_of (published_files (fst (serve ?s1 (UnpRequest a f)))) f = None"
    by (simp add: delete_conv')
  then show ?thesis by (simp add: map_of_eq_None_iff)
qed

text \<open>
  Claim C6, amended. The registry starts empty, and a turn of the control loop, whatever
  it handles, takes a registry without empty publisher lists to one without. After a
  \<open>pub\<close> and then an \<open>unp\<close> of the same filename by the same peer, the filename is no
  longer listed, provided that it had no entry before or the peer was its only publisher.
\<close>

theorem registry_entries_never_empty:
  assumes "dict_ok (active_clients s)" and "no_empty_entry (published_files s)"
  shows "no_empty_entry (published_files (init creds)) \<and>
         (\<exists>s' out. run_iteration decode sweep_time now s ev = Continue s' out \<and>
                    no_empty_entry (published_files s')) \<and>
         (\<forall>a d f. map_of (active_clients s) a = Some d \<and>
                   (map_of (published_files s) f = None \<or>
                    map_of (published_files s) f = Some [username d]) \<longrightarrow>
            f \<notin> set (map fst (published_files (serve_all s [PubRequest a f, UnpRequest a f]))))"
proof (intro conjI allI impI)
  show "no_empty_entry (published_files (init creds))"
    by (simp add: init_def no_empty_entry_def)
next
  show "\<exists>s' out. run_iteration decode sweep_time now s ev = Continue s' out \<and>
                  no_empty_entry (published_files s')"
    by (rule run_iteration_no_empty[OF assms])
next
  fix a d f
  assume "map_of (active_clients s) a = Some d \<and>
          (map_of (published_files s) f = None \<or> map_of (published_files s) f = Some [username d])"
  then show "f \<notin> set (map fst (published_files (serve_all s [PubRequest a f, UnpRequest a f])))"
    using publish_then_unpublish_absent[of s a d f] by blast
qed

theorem registry_entries_never_empty_witness:
  "dict_ok (active_clients demo) \<and> no_empty_entry (published_files demo) \<and>
   run_iteration Inr 2 2 demo (Datagram ''unp report.pdf'' (''10.0.0.1'', 5001)) =
     Continue (demo\<lparr>published_files := [(''notes.txt'', [''alice'', ''bob''])]\<rparr>)
       [(''File unpublished successfully'', (''10.0.0.1'', 5001))] \<and>
   map fst (published_files
     (serve_all demo [PubRequest (''10.0.0.2'', 5002) ''new.txt'', UnpRequest (''10.0.0.2'', 5002) ''new.txt''])) =
     [''report.pdf'', ''notes.txt'']"
  using registry_entries_never_empty [where s = demo and decode = Inr and sweep_time = 2
      and now = 2 and ev = "Datagram ''unp report.pdf'' (''10.0.0.1'', 5001)"]
  by (simp add: dict_ok_def no_empty_entry_def demo_def run_iteration_def
      check_for_inactive_clients_def inactive_clients_def HEARTBEAT_TIMEOUT_def strip_def
      is_space_def dispatch_def route_def startswith_def handle_publish_file_def
      handle_unpublish_file_def parse_command_snd config_defs
      AList.delete_eq Let_def)

text \<open>
  Claim C6, as stated, fails in its last part: \<open>report.pdf\<close> is published by alice; bob
  publishes it and unpublishes it at once, both with success, and the filename is still
  listed, with alice as its publisher.
\<close>

theorem publish_then_unpublish_counterexample:
  "map_of (active_clients demo) (''10.0.0.2'', 5002) =
     Some \<lparr>username = ''bob'', last_heartbeat = 8, tcp_address = None\<rparr> \<and>
   serve demo (PubRequest (''10.0.0.2'', 5002) ''report.pdf'') =
     (demo\<lparr>published_files := [(''report.pdf'', [''alice'', ''bob'']), (''notes.txt'', [''alice'', ''bob''])]\<rparr>,
      [(''File published successfully'', (''10.0.0.2'', 5002))]) \<and>
   serve (fst (serve demo (PubRequest (''10.0.0.2'', 5002) ''report.pdf'')))
       (UnpRequest (''10.0.0.2'', 5002) ''report.pdf'') =
     (demo, [(''File unpublished successfully'', (''10.0.0.2'', 5002))]) \<and>
   map fst (published_files
     (serve_all demo [PubRequest (''10.0.0.2'', 5002) ''report.pdf'',
                      UnpRequest (''10.0.0.2'', 5002) ''report.pdf''])) =
     [''report.pdf'', ''notes.txt'']"
  by (simp add: demo_def handle_publish_file_def handle_unpublish_file_def parse_command_snd
      config_defs AList.delete_eq Let_def)

end
